theory Spec2Isabelle
  imports Main "HOL-Library.Word"
begin

unbundle bit_operations_syntax

section \<open>The size-class engine of the request-scoped memory manager\<close>

text \<open>
  The inline functions of \<^verbatim>\<open>hphp/runtime/base/memory-manager-inl.h\<close> are embedded here.
  A value of type \<^verbatim>\<open>size_t\<close> is a natural number below \<open>2 ^ 64\<close>; where the C++
  arithmetic could wrap (a left shift, an addition), the reduction modulo \<open>2 ^ 64\<close> is
  written out. A function that can fail an \<^verbatim>\<open>assert\<close>, or read a table out of range,
  returns an \<open>option\<close>: \<open>None\<close> is the faulting execution.

  The constants of the size-class scheme are declared in the header that includes this
  file, so they are the fields of a record and every function takes the record.
\<close>

record size_classes =
  kLgSmallSizeQuantum :: nat
  kLgSizeClassesPerDoubling :: nat
  kNumSizeClasses :: nat
  kNumSmallSizes :: nat
  kMaxSizeClass :: nat
  kMaxSmallSize :: nat
  kMaxSmallSizeLookup :: nat

definition wrap64 :: "nat \<Rightarrow> nat" where
  "wrap64 n = n mod 2 ^ 64"

text \<open>\<^verbatim>\<open>x << n\<close> and \<^verbatim>\<open>x >> n\<close> on \<^verbatim>\<open>size_t\<close>.\<close>

definition shl64 :: "nat \<Rightarrow> nat \<Rightarrow> nat" where
  "shl64 x n = wrap64 (x * 2 ^ n)"

definition shr64 :: "nat \<Rightarrow> nat \<Rightarrow> nat" where
  "shr64 x n = x div 2 ^ n"

text \<open>
  Modelled from the spec: \<^verbatim>\<open>fls64\<close> (hphp/util/bitops.h) is not part of this file.
  The spec reads it as "the position of the highest set bit"; bit positions count
  from 0. Its value at 0 is undefined in the C++ and is never asked for below, since
  every caller has asserted \<^verbatim>\<open>size > 1\<close> before decrementing.
\<close>

fun fls64 :: "nat \<Rightarrow> nat" where
  "fls64 n = (if n < 2 then 0 else Suc (fls64 (n div 2)))"

declare fls64.simps [simp del]

text \<open>
  Modelled from the spec: the table \<^verbatim>\<open>kSizeIndex2Size\<close> is declared outside this file.
  Its entries are the class sizes laid out in the comment of \<^verbatim>\<open>computeSize2Index\<close>:
  the first \<^verbatim>\<open>1 << kLgSizeClassesPerDoubling\<close> classes are denormal, of size
  \<^verbatim>\<open>(class + 1) << kLgSmallSizeQuantum\<close>; the others are normal, of size
  \<^verbatim>\<open>(1 << kLgSizeClassesPerDoubling + mantissa) << (exp + kLgSmallSizeQuantum)\<close>, where
  \<^verbatim>\<open>mantissa - 1\<close> is the low \<^verbatim>\<open>kLgSizeClassesPerDoubling\<close> bits of the class index
  and \<^verbatim>\<open>exp + 1\<close> the bits above.
\<close>

definition classSize :: "size_classes \<Rightarrow> nat \<Rightarrow> nat" where
  "classSize c i =
     (let k = kLgSizeClassesPerDoubling c; q = kLgSmallSizeQuantum c in
      if i < 2 ^ k then (i + 1) * 2 ^ q
      else (2 ^ k + (i mod 2 ^ k + 1)) * 2 ^ ((i div 2 ^ k - 1) + q))"

text \<open>Modelled from the spec: the table has one entry per class, in the order of the
  indices.\<close>

definition kSizeIndex2Size :: "size_classes \<Rightarrow> nat list" where
  "kSizeIndex2Size c = map (classSize c) [0..<kNumSizeClasses c]"

text \<open>
  Modelled from the spec: the table \<^verbatim>\<open>kSmallSize2Index\<close> is declared outside this file.
  The spec has it as the precomputed lookup table, indexed by
  \<^verbatim>\<open>(size - 1) >> kLgSmallSizeQuantum\<close>, that classifies every size up to
  \<^verbatim>\<open>kMaxSmallSizeLookup\<close>: entry \<open>j\<close> serves the sizes of \<open>j\<close> whole quanta and a part,
  and holds the index of the first class of at least \<open>j + 1\<close> quanta (the number of
  classes that are smaller).
\<close>

definition kSmallSize2Index :: "size_classes \<Rightarrow> nat list" where
  "kSmallSize2Index c =
     map (\<lambda>j. length (takeWhile (\<lambda>i. classSize c i < (j + 1) * 2 ^ kLgSmallSizeQuantum c)
                                [0..<kNumSizeClasses c]))
         [0..<(if kMaxSmallSizeLookup c = 0 then 0
               else Suc (shr64 (kMaxSmallSizeLookup c - 1) (kLgSmallSizeQuantum c)))]"

text \<open>Modelled from the spec: \<^verbatim>\<open>kSmallSizeAlign\<close>, the quantum in bytes, is declared
  outside this file.\<close>

definition kSmallSizeAlign :: "size_classes \<Rightarrow> nat" where
  "kSmallSizeAlign c = 2 ^ kLgSmallSizeQuantum c"

text \<open>\<^verbatim>\<open>MemoryManager::computeSize2Index\<close>.\<close>

definition computeSize2Index :: "size_classes \<Rightarrow> nat \<Rightarrow> nat option" where
  "computeSize2Index c size0 =
     (if \<not> size0 > 1 then None
      else if \<not> size0 \<le> kMaxSizeClass c then None
      else
        let size1 = size0 - 1;
            nBits = fls64 size1
        in
          if nBits < kLgSizeClassesPerDoubling c + kLgSmallSizeQuantum c
          then Some (shr64 size1 (kLgSmallSizeQuantum c))
          else
            let exp = nBits - (kLgSizeClassesPerDoubling c + kLgSmallSizeQuantum c);
                rawMantissa = shr64 size1 (nBits - kLgSizeClassesPerDoubling c);
                index = wrap64 (shl64 exp (kLgSizeClassesPerDoubling c) + rawMantissa)
            in if \<not> index < kNumSizeClasses c then None else Some index)"

text \<open>\<^verbatim>\<open>MemoryManager::lookupSmallSize2Index\<close>.\<close>

definition lookupSmallSize2Index :: "size_classes \<Rightarrow> nat \<Rightarrow> nat option" where
  "lookupSmallSize2Index c size0 =
     (if \<not> size0 > 0 then None
      else if \<not> size0 \<le> kMaxSmallSizeLookup c then None
      else
        let j = shr64 (size0 - 1) (kLgSmallSizeQuantum c) in
        if j < length (kSmallSize2Index c) then Some (kSmallSize2Index c ! j) else None)"

text \<open>\<^verbatim>\<open>MemoryManager::size2Index\<close>.\<close>

definition size2Index :: "size_classes \<Rightarrow> nat \<Rightarrow> nat option" where
  "size2Index c size0 =
     (if \<not> size0 > 0 then None
      else if \<not> size0 \<le> kMaxSizeClass c then None
      else if size0 \<le> kMaxSmallSizeLookup c then lookupSmallSize2Index c size0
      else computeSize2Index c size0)"

text \<open>\<^verbatim>\<open>MemoryManager::sizeIndex2Size\<close>: a read of the table, which faults out of range.\<close>

definition sizeIndex2Size :: "size_classes \<Rightarrow> nat \<Rightarrow> nat option" where
  "sizeIndex2Size c index =
     (if index < length (kSizeIndex2Size c) then Some (kSizeIndex2Size c ! index) else None)"

text \<open>
  \<^verbatim>\<open>MemoryManager::sizeClass\<close>. \<^verbatim>\<open>nInsignificantBits\<close> is an \<^verbatim>\<open>ssize_t\<close>: the
  difference is negative when the highest bit lies below \<^verbatim>\<open>kLgSizeClassesPerDoubling\<close>.
\<close>

definition sizeClass :: "size_classes \<Rightarrow> nat \<Rightarrow> nat option" where
  "sizeClass c size0 =
     (if \<not> size0 > 1 then None
      else if \<not> size0 \<le> kMaxSizeClass c then None
      else
        let size1 = size0 - 1;
            nInsignificantBits = int (fls64 size1) - int (kLgSizeClassesPerDoubling c);
            roundTo = (if nInsignificantBits < int (kLgSmallSizeQuantum c)
                       then kLgSmallSizeQuantum c else nat nInsignificantBits);
            ret = shl64 (wrap64 (shr64 size1 roundTo + 1)) roundTo
        in
          if \<not> ret \<ge> kSmallSizeAlign c then None
          else if \<not> ret \<le> kMaxSizeClass c then None
          else Some ret)"

text \<open>
  The constants are consistent when every class size fits a \<^verbatim>\<open>size_t\<close>,
  \<^verbatim>\<open>kMaxSizeClass\<close> is the size of one of the classes (\<^verbatim>\<open>sizeClass\<close> asserts that its
  result does not exceed it), and the small classes are classes.
\<close>

definition consistent :: "size_classes \<Rightarrow> bool" where
  "consistent c \<longleftrightarrow>
     (\<forall>v \<in> set (kSizeIndex2Size c). v < 2 ^ 64) \<and>
     kMaxSizeClass c \<in> set (kSizeIndex2Size c) \<and>
     kNumSmallSizes c \<le> kNumSizeClasses c"

section \<open>Free lists\<close>

text \<open>
  A pointer is a 64-bit word and \<^verbatim>\<open>nullptr\<close> is 0. A block on a free list holds
  nothing but the link to the next block, so the memory the lists live in is the map
  from the address of a \<^verbatim>\<open>FreeNode\<close> to the pointer stored in its \<^verbatim>\<open>next\<close> field.
  Two pointers that are equal name the same node: a store through one is seen through
  the other.
\<close>

type_synonym addr = "64 word"

type_synonym int64 = "64 word"

type_synonym links = "addr \<Rightarrow> addr"

record FreeList =
  head :: addr

text \<open>\<^verbatim>\<open>FreeList::likelyPop\<close>. The prefetch of \<^verbatim>\<open>next\<close> is a hint to the cache and
  has no effect on the state.\<close>

definition likelyPop :: "FreeList \<Rightarrow> links \<Rightarrow> addr \<times> FreeList" where
  "likelyPop fl mem =
     (let ret = head fl in
      if ret \<noteq> 0
      then (let next = mem ret in (ret, fl\<lparr>head := next\<rparr>))
      else (ret, fl))"

text \<open>\<^verbatim>\<open>FreeList::unlikelyPop\<close>.\<close>

definition unlikelyPop :: "FreeList \<Rightarrow> links \<Rightarrow> addr \<times> FreeList" where
  "unlikelyPop fl mem =
     (let ret = head fl in
      (ret, if ret \<noteq> 0 then fl\<lparr>head := mem ret\<rparr> else fl))"

text \<open>\<^verbatim>\<open>FreeNode::UninitFrom\<close> stores the link through the address it is given; a store
  through \<^verbatim>\<open>nullptr\<close> is a fault.\<close>

definition UninitFrom :: "addr \<Rightarrow> addr \<Rightarrow> links \<Rightarrow> (addr \<times> links) option" where
  "UninitFrom a next mem = (if a = 0 then None else Some (a, mem(a := next)))"

text \<open>\<^verbatim>\<open>FreeList::push\<close>.\<close>

definition push :: "addr \<Rightarrow> FreeList \<Rightarrow> links \<Rightarrow> (FreeList \<times> links) option" where
  "push val fl mem =
     (case UninitFrom val (head fl) mem of
        None \<Rightarrow> None
      | Some (node, mem') \<Rightarrow> Some (fl\<lparr>head := node\<rparr>, mem'))"

section \<open>The memory manager\<close>

text \<open>
  \<^verbatim>\<open>MemoryUsageStats\<close> and \<^verbatim>\<open>MemoryManager\<close> are declared outside this file. The
  records have the members this file reads and writes; the other members are the
  records' extensions. \<^verbatim>\<open>int64_t\<close> is a 64-bit word read as two's complement.
  \<^verbatim>\<open>links\<close> is the memory the free lists are threaded through, and
  \<^verbatim>\<open>currentSmallAllocs\<close> the counters kept per small class.

  Modelled from the spec: \<^verbatim>\<open>m_bigs\<close> is the heap's collection of individually tracked
  big blocks (the \<^verbatim>\<open>m_bigs\<close> of \<^verbatim>\<open>SparseHeap::empty\<close>), kept as the size each block
  was charged when it was allocated, 0 for an address that is not tracked. The
  functions of this file do not touch it; the large-object paths do.
\<close>

record MemoryUsageStats =
  mmUsage :: int64
  peakIntervalUsage :: int64
  peakIntervalCap :: int64

record 's MemoryManager =
  m_stats :: "'s MemoryUsageStats_scheme"
  m_statsIntervalActive :: bool
  m_usageLimit :: int64
  m_couldOOM :: bool
  m_bypassSlabAlloc :: bool
  m_exiting :: bool
  m_freelists :: "nat \<Rightarrow> FreeList"
  currentSmallAllocs :: "nat \<Rightarrow> 64 word"
  links :: links
  m_bigs :: "addr \<Rightarrow> 64 word"

text \<open>
  The functions this file calls and does not define are the fields of a record, and
  every function that calls one takes the record: the build flag \<^verbatim>\<open>debug\<close>, the
  request for an eager collection, the slow path of the small allocation (which may
  fail for want of memory), the large-object free path, the reconciliation of a stats
  record with the external allocator, the handler of an exceeded limit, and the two
  accessors of \<^verbatim>\<open>MemoryUsageStats\<close>. \<^verbatim>\<open>refreshStatsImpl\<close> works on the record it is
  handed: \<^verbatim>\<open>getStatsCopy\<close> hands it a copy so as to "fetch current stats without
  changing m_stats or triggering OOM".
\<close>

record ('s, 'm) collaborators =
  debug :: bool
  requestEagerGC :: "('s, 'm) MemoryManager_scheme \<Rightarrow> ('s, 'm) MemoryManager_scheme"
  mallocSmallSizeSlow ::
    "nat \<Rightarrow> nat \<Rightarrow> ('s, 'm) MemoryManager_scheme \<Rightarrow> (addr \<times> ('s, 'm) MemoryManager_scheme) option"
  freeBigSize :: "addr \<Rightarrow> ('s, 'm) MemoryManager_scheme \<Rightarrow> ('s, 'm) MemoryManager_scheme"
  refreshStatsImpl ::
    "('s, 'm) MemoryManager_scheme \<Rightarrow> 's MemoryUsageStats_scheme \<Rightarrow> 's MemoryUsageStats_scheme"
  refreshStatsHelperExceeded :: "('s, 'm) MemoryManager_scheme \<Rightarrow> ('s, 'm) MemoryManager_scheme"
  usage :: "'s MemoryUsageStats_scheme \<Rightarrow> int64"
  capacity :: "'s MemoryUsageStats_scheme \<Rightarrow> int64"

text \<open>Modelled from the spec: \<^verbatim>\<open>kSmallSizeAlignMask\<close> is declared outside this file; it
  masks the bits of an address below the small-size alignment.\<close>

definition kSmallSizeAlignMask :: "size_classes \<Rightarrow> addr" where
  "kSmallSizeAlignMask c = of_nat (kSmallSizeAlign c - 1)"

text \<open>\<^verbatim>\<open>MemoryManager::mallocSmallIndex\<close>. \<^verbatim>\<open>bytes\<close> is a \<^verbatim>\<open>size_t\<close>, so the sum
  with the usage counter is taken modulo \<open>2 ^ 64\<close>.\<close>

definition mallocSmallIndex ::
  "size_classes \<Rightarrow> ('s, 'm) collaborators \<Rightarrow> nat \<Rightarrow> ('s, 'm) MemoryManager_scheme
     \<Rightarrow> (addr \<times> ('s, 'm) MemoryManager_scheme) option" where
  "mallocSmallIndex c ext index mm =
     (if \<not> index < kNumSmallSizes c then None
      else
        let mm0 = (if debug ext then requestEagerGC ext mm else mm) in
        case sizeIndex2Size c index of
          None \<Rightarrow> None
        | Some bytes \<Rightarrow>
            let mm1 = mm0\<lparr>m_stats := (m_stats mm0)\<lparr>mmUsage := mmUsage (m_stats mm0) + of_nat bytes\<rparr>\<rparr>;
                (p, fl) = likelyPop (m_freelists mm1 index) (links mm1);
                mm2 = mm1\<lparr>m_freelists := (m_freelists mm1)(index := fl)\<rparr>
            in
              case (if p = 0 then mallocSmallSizeSlow ext bytes index mm2 else Some (p, mm2)) of
                None \<Rightarrow> None
              | Some (p', mm3) \<Rightarrow>
                  if \<not> p' AND kSmallSizeAlignMask c = 0 then None else Some (p', mm3))"

text \<open>\<^verbatim>\<open>MemoryManager::mallocSmallSize\<close>.\<close>

definition mallocSmallSize ::
  "size_classes \<Rightarrow> ('s, 'm) collaborators \<Rightarrow> nat \<Rightarrow> ('s, 'm) MemoryManager_scheme
     \<Rightarrow> (addr \<times> ('s, 'm) MemoryManager_scheme) option" where
  "mallocSmallSize c ext bytes mm =
     (if \<not> bytes > 0 then None
      else if \<not> bytes \<le> kMaxSmallSize c then None
      else case size2Index c bytes of
             None \<Rightarrow> None
           | Some index \<Rightarrow> mallocSmallIndex c ext index mm)"

text \<open>\<^verbatim>\<open>MemoryManager::freeSmallIndex\<close>.\<close>

definition freeSmallIndex ::
  "size_classes \<Rightarrow> ('s, 'm) collaborators \<Rightarrow> addr \<Rightarrow> nat \<Rightarrow> ('s, 'm) MemoryManager_scheme
     \<Rightarrow> ('s, 'm) MemoryManager_scheme option" where
  "freeSmallIndex c ext ptr index mm =
     (if \<not> index < kNumSmallSizes c then None
      else if \<not> ptr AND kSmallSizeAlignMask c = 0 then None
      else if m_bypassSlabAlloc mm
      then Some (freeBigSize ext ptr
                   (mm\<lparr>currentSmallAllocs :=
                          (currentSmallAllocs mm)(index := currentSmallAllocs mm index - 1)\<rparr>))
      else
        case sizeIndex2Size c index of
          None \<Rightarrow> None
        | Some bytes \<Rightarrow>
            (case push ptr (m_freelists mm index) (links mm) of
               None \<Rightarrow> None
             | Some (fl, mem) \<Rightarrow>
                 let mm1 = mm\<lparr>m_freelists := (m_freelists mm)(index := fl), links := mem\<rparr>
                 in Some (mm1\<lparr>m_stats :=
                                (m_stats mm1)\<lparr>mmUsage := mmUsage (m_stats mm1) - of_nat bytes\<rparr>\<rparr>)))"

text \<open>\<^verbatim>\<open>MemoryManager::freeSmallSize\<close>.\<close>

definition freeSmallSize ::
  "size_classes \<Rightarrow> ('s, 'm) collaborators \<Rightarrow> addr \<Rightarrow> nat \<Rightarrow> ('s, 'm) MemoryManager_scheme
     \<Rightarrow> ('s, 'm) MemoryManager_scheme option" where
  "freeSmallSize c ext ptr bytes mm =
     (case size2Index c bytes of
        None \<Rightarrow> None
      | Some index \<Rightarrow> freeSmallIndex c ext ptr index mm)"

subsection \<open>Accounting and budget\<close>

text \<open>\<^verbatim>\<open>MemoryManager::currentUsage\<close>.\<close>

definition currentUsage :: "('s, 'm) MemoryManager_scheme \<Rightarrow> int64" where
  "currentUsage mm = mmUsage (m_stats mm)"

text \<open>\<^verbatim>\<open>MemoryManager::getStatsCopy\<close>.\<close>

definition getStatsCopy ::
  "('s, 'm) collaborators \<Rightarrow> ('s, 'm) MemoryManager_scheme \<Rightarrow> 's MemoryUsageStats_scheme" where
  "getStatsCopy ext mm = (let copy = m_stats mm in refreshStatsImpl ext mm copy)"




text \<open>\<^verbatim>\<open>MemoryManager::getMemoryLimit\<close>.\<close>

definition getMemoryLimit :: "('s, 'm) MemoryManager_scheme \<Rightarrow> int64" where
  "getMemoryLimit mm = m_usageLimit mm"

text \<open>
  \<^verbatim>\<open>MemoryManager::preAllocOOM\<close>. The sum \<^verbatim>\<open>stats.usage() + size\<close> is a signed
  addition, undefined in C++ when it leaves the range of \<^verbatim>\<open>int64_t\<close>: that execution
  is \<open>None\<close>.
\<close>

definition preAllocOOM ::
  "('s, 'm) collaborators \<Rightarrow> int64 \<Rightarrow> ('s, 'm) MemoryManager_scheme
     \<Rightarrow> (bool \<times> ('s, 'm) MemoryManager_scheme) option" where
  "preAllocOOM ext size0 mm =
     (if m_couldOOM mm then
        let stats = getStatsCopy ext mm;
            total = sint (usage ext stats) + sint size0
        in
          if total < - (2 ^ 63) \<or> 2 ^ 63 \<le> total then None
          else if total > sint (m_usageLimit mm)
          then Some (True, refreshStatsHelperExceeded ext mm)
          else Some (False, mm)
      else Some (False, mm))"

text \<open>\<^verbatim>\<open>MemoryManager::forceOOM\<close>.\<close>

definition forceOOM ::
  "('s, 'm) collaborators \<Rightarrow> ('s, 'm) MemoryManager_scheme \<Rightarrow> ('s, 'm) MemoryManager_scheme" where
  "forceOOM ext mm = (if m_couldOOM mm then refreshStatsHelperExceeded ext mm else mm)"

subsection \<open>The scope that suppresses the check\<close>

text \<open>
  \<^verbatim>\<open>MemoryManager::SuppressOOM\<close> holds a reference to the manager and the flag it found.
  The constructor and the destructor act on the manager that is passed along: a block
  that declares a \<^verbatim>\<open>SuppressOOM\<close> runs the constructor on entry and the destructor on
  exit.
\<close>

record SuppressOOM =
  m_savedCouldOOM :: bool

definition SuppressOOM_ctor ::
  "('s, 'm) MemoryManager_scheme \<Rightarrow> SuppressOOM \<times> ('s, 'm) MemoryManager_scheme" where
  "SuppressOOM_ctor mm = (\<lparr>m_savedCouldOOM = m_couldOOM mm\<rparr>, mm\<lparr>m_couldOOM := False\<rparr>)"

definition SuppressOOM_dtor ::
  "SuppressOOM \<Rightarrow> ('s, 'm) MemoryManager_scheme \<Rightarrow> ('s, 'm) MemoryManager_scheme" where
  "SuppressOOM_dtor so mm = mm\<lparr>m_couldOOM := m_savedCouldOOM so\<rparr>"

subsection \<open>The manager of the calling thread\<close>

text \<open>
  \<^verbatim>\<open>tl_heap\<close> is the thread's pointer to its manager, null when the thread has none,
  and \<^verbatim>\<open>tl_sweeping\<close> the thread's flag. Reading a member through a null \<^verbatim>\<open>tl_heap\<close>
  is a fault; \<^verbatim>\<open>&&\<close> evaluates its right operand only when the left one holds.
\<close>

record ('s, 'm) thread_locals =
  tl_heap :: "('s, 'm) MemoryManager_scheme option"
  tl_sweeping :: bool

definition sweeping :: "('s, 'm) thread_locals \<Rightarrow> bool option" where
  "sweeping t = (if tl_heap t \<noteq> None then Some (tl_sweeping t) else Some False)"

definition exiting :: "('s, 'm) thread_locals \<Rightarrow> bool option" where
  "exiting t =
     (if tl_heap t \<noteq> None
      then (case tl_heap t of None \<Rightarrow> None | Some mm \<Rightarrow> Some (m_exiting mm))
      else Some False)"

definition setExiting :: "('s, 'm) thread_locals \<Rightarrow> ('s, 'm) thread_locals option" where
  "setExiting t =
     (if tl_heap t \<noteq> None
      then (case tl_heap t of
              None \<Rightarrow> None
            | Some mm \<Rightarrow> Some (t\<lparr>tl_heap := Some (mm\<lparr>m_exiting := True\<rparr>)\<rparr>))
      else Some t)"

section \<open>Sample constants, collaborators and states\<close>

text \<open>A choice of constants to run the functions on: a quantum of 16 bytes, four
  classes per doubling, forty classes up to 32768 bytes, of which the first
  twenty-eight (up to 4096 bytes) are small.\<close>

definition example_classes :: size_classes where
  "example_classes =
     \<lparr> kLgSmallSizeQuantum = 4, kLgSizeClassesPerDoubling = 2,
       kNumSizeClasses = 40, kNumSmallSizes = 28,
       kMaxSizeClass = 32768, kMaxSmallSize = 4096, kMaxSmallSizeLookup = 4096 \<rparr>"

text \<open>A memory in which every link is null.\<close>

definition no_links :: links where
  "no_links = (\<lambda>a. 0)"

text \<open>
  Modelled from the spec: the collaborators are not in this file. \<open>quiet\<close> is a release
  build with no totals from the external allocator: reconciling is the no-op the spec
  gives for that case and usage is the running counter. Its slow path carves the block
  at address 4096 and leaves the counter to its caller, who has charged the block
  already; when the slabs are bypassed the block is a big block, tracked with the size
  it was charged. Its large-object free path decrements the usage by the size the
  block was charged at allocation (the symmetric accounting the spec requires of every
  allocation and free) and stops tracking the block. The handler of an exceeded limit
  does nothing.
\<close>

definition quiet :: "('s, 'm) collaborators" where
  "quiet =
     \<lparr> debug = False,
       requestEagerGC = (\<lambda>mm. mm),
       mallocSmallSizeSlow =
         (\<lambda>bytes index mm.
            Some (4096, if m_bypassSlabAlloc mm
                        then mm\<lparr>m_bigs := (m_bigs mm)(4096 := of_nat bytes)\<rparr>
                        else mm)),
       freeBigSize =
         (\<lambda>ptr mm.
            mm\<lparr>m_stats := (m_stats mm)\<lparr>mmUsage := mmUsage (m_stats mm) - m_bigs mm ptr\<rparr>,
               m_bigs := (m_bigs mm)(ptr := 0)\<rparr>),
       refreshStatsImpl = (\<lambda>mm stats. stats),
       refreshStatsHelperExceeded = (\<lambda>mm. mm),
       usage = mmUsage,
       capacity = (\<lambda>stats. 0) \<rparr>"

text \<open>A manager in mid-request: 900 bytes in use under a limit of 1000, checks
  enabled, no interval running, every free list empty, no big block tracked.\<close>

definition request :: "unit MemoryManager" where
  "request =
     \<lparr> m_stats = \<lparr> mmUsage = 900, peakIntervalUsage = 0, peakIntervalCap = 0 \<rparr>,
       m_statsIntervalActive = False,
       m_usageLimit = 1000,
       m_couldOOM = True,
       m_bypassSlabAlloc = False,
       m_exiting = False,
       m_freelists = (\<lambda>i. \<lparr> head = 0 \<rparr>),
       currentSmallAllocs = (\<lambda>i. 0),
       links = no_links,
       m_bigs = (\<lambda>a. 0) \<rparr>"

text \<open>The totals of the external allocator, as an extension of the manager: the values
  behind the pointers \<^verbatim>\<open>m_allocated\<close> and \<^verbatim>\<open>m_deallocated\<close>.\<close>

record external_totals =
  m_allocated :: "64 word"
  m_deallocated :: "64 word"

text \<open>
  Modelled from the spec: \<^verbatim>\<open>refreshStatsImpl\<close> is not in this file. The spec has it
  reconcile the usage counter with the allocation and deallocation totals of the
  external allocator when they are at hand. In \<open>reconciling\<close> the bytes the external
  allocator has outstanding are added to the counter of the record that is handed in;
  the other collaborators are those of \<open>quiet\<close>.
\<close>

definition reconciling :: "('s, external_totals) collaborators" where
  "reconciling =
     quiet\<lparr> refreshStatsImpl :=
              (\<lambda>mm stats.
                 stats\<lparr>mmUsage := mmUsage stats
                          + (m_allocated (MemoryManager.more mm)
                             - m_deallocated (MemoryManager.more mm))\<rparr>) \<rparr>"

text \<open>The manager \<open>request\<close> with 200 bytes of the external allocator outstanding.\<close>

definition request_with_totals :: "(unit, external_totals) MemoryManager_scheme" where
  "request_with_totals =
     MemoryManager.extend request \<lparr> m_allocated = 500, m_deallocated = 300 \<rparr>"

section \<open>Size classes: rounding up to the nearest class\<close>

text \<open>\<^verbatim>\<open>fls64\<close> brackets its argument between two powers of two.\<close>

lemma fls64_bounds: "0 < n \<Longrightarrow> 2 ^ fls64 n \<le> n \<and> n < 2 ^ Suc (fls64 n)"
proof (induction n rule: fls64.induct)
  case (1 n)
  show ?case
  proof (cases "n < 2")
    case True
    with "1.prems" have "n = 1" by simp
    then show ?thesis by (simp add: fls64.simps)
  next
    case False
    then have pos: "0 < n div 2" by simp
    from "1.IH" [OF False pos] have lo: "2 ^ fls64 (n div 2) \<le> n div 2"
      and hi: "n div 2 < 2 ^ Suc (fls64 (n div 2))" by simp_all
    have eq: "fls64 n = Suc (fls64 (n div 2))" using False by (subst fls64.simps) simp
    from lo have "2 * 2 ^ fls64 (n div 2) \<le> n" by linarith
    moreover from hi have "n < 2 * 2 ^ Suc (fls64 (n div 2))" by linarith
    ultimately show ?thesis by (simp add: eq)
  qed
qed

lemma classSize_quantum: "2 ^ kLgSmallSizeQuantum c dvd classSize c i"
  by (simp add: classSize_def Let_def power_add)

lemma classSize_Suc: "classSize c i < classSize c (Suc i)"
proof -
  define K :: nat where "K = 2 ^ kLgSizeClassesPerDoubling c"
  define q where "q = kLgSmallSizeQuantum c"
  have Kpos: "0 < K" by (simp add: K_def)
  have cs: "\<And>i. classSize c i =
      (if i < K then (i + 1) * 2 ^ q else (K + (i mod K + 1)) * 2 ^ ((i div K - 1) + q))"
    by (simp add: classSize_def K_def q_def Let_def)
  consider (a) "Suc i < K" | (b) "Suc i = K" | (c) "K \<le> i" by linarith
  then show ?thesis
  proof cases
    case a
    then show ?thesis by (simp add: cs)
  next
    case b
    then have "classSize c i = K * 2 ^ q" by (simp add: cs)
    moreover have "classSize c (Suc i) = (K + 1) * 2 ^ q" using b Kpos by (simp add: cs)
    ultimately show ?thesis by simp
  next
    case c
    then have h: "1 \<le> i div K" using Kpos by (simp add: Suc_le_eq div_greater_zero_iff)
    have ci: "classSize c i = (K + (i mod K + 1)) * 2 ^ ((i div K - 1) + q)"
      using c by (simp add: cs)
    show ?thesis
    proof (cases "Suc (i mod K) = K")
      case True
      then have m: "Suc i mod K = 0" and d: "Suc i div K = Suc (i div K)"
        by (simp_all add: mod_Suc div_Suc)
      have "classSize c (Suc i) = (K + 1) * 2 ^ (i div K + q)"
        using c m d by (simp add: cs)
      moreover have "classSize c i = K * 2 ^ (i div K + q)"
      proof -
        have "classSize c i = (K + K) * 2 ^ ((i div K - 1) + q)" using ci True by simp
        also have "\<dots> = K * 2 ^ Suc ((i div K - 1) + q)" by simp
        also have "Suc ((i div K - 1) + q) = i div K + q" using h by simp
        finally show ?thesis .
      qed
      ultimately show ?thesis using Kpos by simp
    next
      case False
      then have m: "Suc i mod K = Suc (i mod K)" and d: "Suc i div K = i div K"
        by (simp_all add: mod_Suc div_Suc)
      have "classSize c (Suc i) = (K + (Suc (i mod K) + 1)) * 2 ^ ((i div K - 1) + q)"
        using c m d by (simp add: cs)
      with ci show ?thesis by simp
    qed
  qed
qed

lemma classSize_strict_mono: "i < j \<Longrightarrow> classSize c i < classSize c j"
  by (rule lift_Suc_mono_less) (rule classSize_Suc)

lemma classSize_mono: "i \<le> j \<Longrightarrow> classSize c i \<le> classSize c j"
  by (rule lift_Suc_mono_le) (rule less_imp_le, rule classSize_Suc)

lemma classSize_gt_index: "i < classSize c i"
proof (induction i)
  case 0
  show ?case by (simp add: classSize_def Let_def)
next
  case (Suc i)
  with classSize_Suc [of c i] show ?case by linarith
qed

text \<open>The index at which a scan of \<open>[0..<n]\<close> stops.\<close>

lemma first_failing_index:
  assumes "a < n" and below: "\<And>i. i < a \<Longrightarrow> P i" and at: "\<not> P a"
  shows "length (takeWhile P [0..<n]) = a"
proof (rule antisym)
  show "length (takeWhile P [0..<n]) \<le> a"
  proof (rule ccontr)
    assume "\<not> length (takeWhile P [0..<n]) \<le> a"
    then have lt: "a < length (takeWhile P [0..<n])" by simp
    then have "takeWhile P [0..<n] ! a = [0..<n] ! a" by (rule takeWhile_nth)
    with \<open>a < n\<close> have "takeWhile P [0..<n] ! a = a" by simp
    moreover from lt have "takeWhile P [0..<n] ! a \<in> set (takeWhile P [0..<n])" by simp
    ultimately have "a \<in> set (takeWhile P [0..<n])" by simp
    then have "P a" by (rule set_takeWhileD [THEN conjunct2])
    with at show False ..
  qed
next
  show "a \<le> length (takeWhile P [0..<n])"
  proof (rule length_takeWhile_less_P_nth)
    fix i assume "i < a"
    with \<open>a < n\<close> have "[0..<n] ! i = i" by simp
    with below [OF \<open>i < a\<close>] show "P ([0..<n] ! i)" by simp
  next
    from \<open>a < n\<close> show "a \<le> length [0..<n]" by simp
  qed
qed

lemma classSize_exp_mantissa:
  assumes lo: "2 ^ kLgSizeClassesPerDoubling c \<le> raw + 1"
      and hi: "raw < 2 * 2 ^ kLgSizeClassesPerDoubling c"
  shows "classSize c (e * 2 ^ kLgSizeClassesPerDoubling c + raw)
           = (raw + 1) * 2 ^ (e + kLgSmallSizeQuantum c)"
proof -
  define K :: nat where "K = 2 ^ kLgSizeClassesPerDoubling c"
  define q where "q = kLgSmallSizeQuantum c"
  have Kpos: "0 < K" by (simp add: K_def)
  have cs: "\<And>i. classSize c i =
      (if i < K then (i + 1) * 2 ^ q else (K + (i mod K + 1)) * 2 ^ ((i div K - 1) + q))"
    by (simp add: classSize_def K_def q_def Let_def)
  from lo hi have lo': "K \<le> raw + 1" and hi': "raw < 2 * K" by (simp_all add: K_def)
  have goal: "classSize c (e * K + raw) = (raw + 1) * 2 ^ (e + q)"
  proof (cases "K \<le> raw")
    case True
    then obtain t where t: "raw = K + t" "t < K" using hi' by (metis add_diff_inverse_nat less_diff_conv2 mult_2 not_less nat_add_left_cancel_less)
    have idx: "e * K + raw = (e + 1) * K + t" using t by (simp add: algebra_simps)
    have "(e * K + raw) mod K = t" using t by (simp add: idx)
    moreover have "(e * K + raw) div K = e + 1" using t Kpos by (simp add: idx div_add_self1)
    moreover have "\<not> e * K + raw < K" using True by (simp add: not_less trans_le_add2)
    ultimately show ?thesis using t by (simp add: cs)
  next
    case False
    with lo' have raw: "raw + 1 = K" by simp
    show ?thesis
    proof (cases e)
      case 0
      then show ?thesis using raw by (simp add: cs)
    next
      case (Suc e')
      have km: "raw < K" using raw by simp
      have "(e * K + raw) mod K = raw" using km by simp
      moreover have "(e * K + raw) div K = e" using km by simp
      moreover have "\<not> e * K + raw < K" using Suc by simp
      ultimately have "classSize c (e * K + raw) = (K + (raw + 1)) * 2 ^ (e' + q)"
        using Suc by (simp add: cs)
      also have "\<dots> = (K + K) * 2 ^ (e' + q)" using raw by simp
      also have "\<dots> = K * 2 ^ (e + q)" using Suc by simp
      finally show ?thesis using raw by simp
    qed
  qed
  then show ?thesis by (simp add: K_def q_def)
qed

lemma denormal_class:
  assumes m: "0 < m"
      and den: "fls64 m < kLgSizeClassesPerDoubling c + kLgSmallSizeQuantum c"
  shows "classSize c (m div 2 ^ kLgSmallSizeQuantum c)
           = (m div 2 ^ kLgSmallSizeQuantum c + 1) * 2 ^ kLgSmallSizeQuantum c"
    and "0 < m div 2 ^ kLgSmallSizeQuantum c \<Longrightarrow>
         classSize c (m div 2 ^ kLgSmallSizeQuantum c - 1)
           = (m div 2 ^ kLgSmallSizeQuantum c) * 2 ^ kLgSmallSizeQuantum c"
proof -
  define k where "k = kLgSizeClassesPerDoubling c"
  define q where "q = kLgSmallSizeQuantum c"
  from fls64_bounds [OF m] have "m < 2 ^ Suc (fls64 m)" by simp
  also from den have "(2::nat) ^ Suc (fls64 m) \<le> 2 ^ (k + q)"
    by (intro power_increasing) (simp_all add: k_def q_def)
  finally have "m < 2 ^ k * 2 ^ q" by (simp add: power_add)
  then have small: "m div 2 ^ q < 2 ^ k"
    by (simp add: less_mult_imp_div_less)
  then show "classSize c (m div 2 ^ kLgSmallSizeQuantum c)
           = (m div 2 ^ kLgSmallSizeQuantum c + 1) * 2 ^ kLgSmallSizeQuantum c"
    by (simp add: classSize_def Let_def k_def q_def)
  assume "0 < m div 2 ^ kLgSmallSizeQuantum c"
  with small show "classSize c (m div 2 ^ kLgSmallSizeQuantum c - 1)
           = (m div 2 ^ kLgSmallSizeQuantum c) * 2 ^ kLgSmallSizeQuantum c"
    by (simp add: classSize_def Let_def k_def q_def)
qed

lemma normal_class:
  assumes m: "0 < m"
      and nor: "kLgSizeClassesPerDoubling c + kLgSmallSizeQuantum c \<le> fls64 m"
  defines "k \<equiv> kLgSizeClassesPerDoubling c"
  defines "raw \<equiv> m div 2 ^ (fls64 m - k)"
  defines "idx \<equiv> (fls64 m - (k + kLgSmallSizeQuantum c)) * 2 ^ k + raw"
  shows "classSize c idx = (raw + 1) * 2 ^ (fls64 m - k)"
    and "classSize c (idx - 1) = raw * 2 ^ (fls64 m - k)"
    and "0 < idx"
proof -
  define q where "q = kLgSmallSizeQuantum c"
  define n where "n = fls64 m"
  define e where "e = n - (k + q)"
  from nor have nk: "k \<le> n" and eq: "e + q = n - k" by (simp_all add: k_def n_def q_def e_def)
  from fls64_bounds [OF m] have lo: "2 ^ n \<le> m" and hi: "m < 2 ^ Suc n" by (simp_all add: n_def)
  have split: "(2::nat) ^ n = 2 ^ k * 2 ^ (n - k)" using nk by (simp flip: power_add)
  have "2 ^ k * 2 ^ (n - k) \<le> m" using lo split by simp
  then have rlo: "2 ^ k \<le> raw"
    unfolding raw_def n_def [symmetric]
    by (simp add: less_eq_div_iff_mult_less_eq)
  have "m < (2 * 2 ^ k) * 2 ^ (n - k)" using hi split by simp
  then have rhi: "raw < 2 * 2 ^ k"
    unfolding raw_def n_def [symmetric]
    by (simp add: less_mult_imp_div_less)
  have idx: "idx = e * 2 ^ k + raw" by (simp add: idx_def e_def n_def q_def)
  from rlo rhi have "classSize c (e * 2 ^ k + raw) = (raw + 1) * 2 ^ (e + q)"
    unfolding k_def q_def by (intro classSize_exp_mantissa) simp_all
  then show "classSize c idx = (raw + 1) * 2 ^ (fls64 m - k)"
    by (simp add: idx eq n_def)
  have rpos: "0 < raw" using rlo by (metis less_le_trans zero_less_numeral zero_less_power)
  from rlo rhi rpos have "classSize c (e * 2 ^ k + (raw - 1)) = ((raw - 1) + 1) * 2 ^ (e + q)"
    unfolding k_def q_def by (intro classSize_exp_mantissa) simp_all
  moreover have "idx - 1 = e * 2 ^ k + (raw - 1)" using rpos by (simp add: idx)
  ultimately show "classSize c (idx - 1) = raw * 2 ^ (fls64 m - k)"
    using rpos by (simp add: eq n_def)
  show "0 < idx" using rpos by (simp add: idx)
qed

text \<open>
  The heart of the engine: for a size within the asserted range, \<^verbatim>\<open>computeSize2Index\<close>
  returns a valid class index, \<^verbatim>\<open>sizeClass\<close> returns the size of that class, the class
  is large enough, every smaller class is too small, and the lookup table holds the
  same index wherever it applies.
\<close>

lemma classify:
  assumes ok: "consistent c" and s1: "1 < s" and s2: "s \<le> kMaxSizeClass c"
  shows "\<exists>idx. idx < kNumSizeClasses c \<and>
           computeSize2Index c s = Some idx \<and>
           sizeClass c s = Some (classSize c idx) \<and>
           s \<le> classSize c idx \<and>
           (\<forall>j. classSize c j < classSize c idx \<longrightarrow> classSize c j < s) \<and>
           (s \<le> kMaxSmallSizeLookup c \<longrightarrow> lookupSmallSize2Index c s = Some idx)"
proof -
  define k where "k = kLgSizeClassesPerDoubling c"
  define q where "q = kLgSmallSizeQuantum c"
  define m where "m = s - 1"
  define n where "n = fls64 m"
  define r where "r = (if n < k + q then q else n - k)"
  define idx where "idx = (if n < k + q then m div 2 ^ q
                            else (n - (k + q)) * 2 ^ k + m div 2 ^ (n - k))"
  define v where "v = (m div 2 ^ r + 1) * 2 ^ r"
  have m: "0 < m" and sm: "s = m + 1" using s1 by (simp_all add: m_def)
  have qr: "q \<le> r" by (auto simp: r_def)
  have size_idx: "classSize c idx = v"
   and below: "0 < idx \<Longrightarrow> classSize c (idx - 1) = (m div 2 ^ r) * 2 ^ r"
  proof -
    show "classSize c idx = v"
    proof (cases "n < k + q")
      case True
      then show ?thesis
        using denormal_class(1) [OF m, of c]
        by (simp add: idx_def v_def r_def n_def k_def q_def)
    next
      case False
      then show ?thesis
        using normal_class(1) [OF m, of c]
        by (simp add: idx_def v_def r_def n_def k_def q_def)
    qed
    assume pos: "0 < idx"
    show "classSize c (idx - 1) = (m div 2 ^ r) * 2 ^ r"
    proof (cases "n < k + q")
      case True
      then show ?thesis
        using denormal_class(2) [OF m, of c] pos
        by (simp add: idx_def r_def n_def k_def q_def)
    next
      case False
      then show ?thesis
        using normal_class(2) [OF m, of c]
        by (simp add: idx_def r_def n_def k_def q_def)
    qed
  qed
  have below_m: "0 < idx \<Longrightarrow> classSize c (idx - 1) \<le> m"
    using below by simp
  have "m < 2 ^ r + (m div 2 ^ r) * 2 ^ r"
    by (rule dividend_less_div_times) simp
  then have sv: "s \<le> v" by (simp add: sm v_def)
  from ok obtain t where t: "t < kNumSizeClasses c" "kMaxSizeClass c = classSize c t"
    by (auto simp: consistent_def kSizeIndex2Size_def)
  have idx_t: "idx \<le> t"
  proof (rule ccontr)
    assume "\<not> idx \<le> t"
    then have pos: "0 < idx" and "t \<le> idx - 1" by simp_all
    then have "classSize c t \<le> classSize c (idx - 1)" by (intro classSize_mono)
    also have "\<dots> \<le> m" using pos by (rule below_m)
    finally show False using s2 t(2) sm by simp
  qed
  then have idx_N: "idx < kNumSizeClasses c" using t(1) by simp
  have max64: "kMaxSizeClass c < 2 ^ 64" using ok by (simp add: consistent_def)
  have v_max: "v \<le> kMaxSizeClass c"
    using classSize_mono [OF idx_t, of c] size_idx t(2) by simp
  then have v64: "v < 2 ^ 64" using max64 by simp
  have "idx < classSize c idx" by (rule classSize_gt_index)
  then have idx64: "idx < 2 ^ 64" using size_idx v64 by simp
  have compute: "computeSize2Index c s = Some idx"
  proof (cases "n < k + q")
    case True
    then show ?thesis
      using s1 s2 by (simp add: computeSize2Index_def Let_def shr64_def idx_def
          n_def m_def k_def q_def)
  next
    case False
    define e where "e = n - (k + q)"
    define raw where "raw = m div 2 ^ (n - k)"
    have i: "idx = e * 2 ^ k + raw" using False by (simp add: idx_def e_def raw_def)
    then have "e * 2 ^ k < 2 ^ 64" using idx64 by simp
    then have "shl64 e k = e * 2 ^ k" by (simp add: shl64_def wrap64_def)
    then have "wrap64 (shl64 e k + raw) = idx" using idx64 i by (simp add: wrap64_def)
    then show ?thesis
      using False s1 s2 idx_N
      unfolding e_def raw_def n_def m_def k_def q_def
      by (simp add: computeSize2Index_def Let_def shr64_def)
  qed
  have "(m div 2 ^ r + 1) * 1 \<le> (m div 2 ^ r + 1) * 2 ^ r"
    by (intro mult_le_mono2) simp
  then have "m div 2 ^ r + 1 \<le> v" by (simp add: v_def)
  then have "wrap64 (m div 2 ^ r + 1) = m div 2 ^ r + 1" using v64 by (simp add: wrap64_def)
  then have ret: "shl64 (wrap64 (shr64 m r + 1)) r = v"
    using v64 by (simp add: shl64_def shr64_def wrap64_def v_def)
  have "(2::nat) ^ q \<le> 2 ^ r" using qr by (simp add: power_increasing)
  also have "\<dots> \<le> v"
  proof -
    have "1 * (2::nat) ^ r \<le> (m div 2 ^ r + 1) * 2 ^ r" by (intro mult_le_mono1) simp
    then show ?thesis by (simp add: v_def)
  qed
  finally have align: "kSmallSizeAlign c \<le> v" by (simp add: kSmallSizeAlign_def q_def)
  have direct: "sizeClass c s = Some (classSize c idx)"
  proof (cases "n < k + q")
    case True
    then have "int n - int k < int q" and "r = q" by (simp_all add: r_def)
    then show ?thesis
      using s1 s2 align v_max ret
      unfolding n_def m_def k_def q_def
      by (simp add: sizeClass_def Let_def size_idx)
  next
    case False
    then have "\<not> int n - int k < int q" and "nat (int n - int k) = r"
      by (simp_all add: r_def)
    then show ?thesis
      using s1 s2 align v_max ret
      unfolding n_def m_def k_def q_def
      by (simp add: sizeClass_def Let_def size_idx)
  qed
  have least: "classSize c j < s" if "classSize c j < classSize c idx" for j
  proof -
    have "j < idx"
    proof (rule ccontr)
      assume "\<not> j < idx"
      then have "classSize c idx \<le> classSize c j" by (intro classSize_mono) simp
      with that show False by simp
    qed
    then have pos: "0 < idx" and "j \<le> idx - 1" by simp_all
    then have "classSize c j \<le> classSize c (idx - 1)" by (intro classSize_mono)
    also have "\<dots> \<le> m" using pos by (rule below_m)
    finally show ?thesis by (simp add: sm)
  qed
  have lookup: "lookupSmallSize2Index c s = Some idx" if small: "s \<le> kMaxSmallSizeLookup c"
  proof -
    define j0 where "j0 = m div 2 ^ q"
    have "m \<le> kMaxSmallSizeLookup c - 1" using small by (simp add: m_def)
    then have "j0 \<le> (kMaxSmallSizeLookup c - 1) div 2 ^ q"
      unfolding j0_def by (rule div_le_mono)
    moreover have "kMaxSmallSizeLookup c \<noteq> 0" using small s1 by simp
    ultimately have len: "j0 < length (kSmallSize2Index c)"
      by (simp add: kSmallSize2Index_def shr64_def q_def)
    have upper: "m < (j0 + 1) * 2 ^ q"
      using dividend_less_div_times [of "2 ^ q" m] by (simp add: j0_def)
    have "length (takeWhile (\<lambda>i. classSize c i < (j0 + 1) * 2 ^ q) [0..<kNumSizeClasses c]) = idx"
    proof (rule first_failing_index [OF idx_N])
      fix i assume "i < idx"
      then have pos: "0 < idx" and "i \<le> idx - 1" by simp_all
      then have "classSize c i \<le> classSize c (idx - 1)" by (intro classSize_mono)
      also have "\<dots> \<le> m" using pos by (rule below_m)
      finally show "classSize c i < (j0 + 1) * 2 ^ q" using upper by simp
    next
      from classSize_quantum [of c idx] obtain a where a: "classSize c idx = 2 ^ q * a"
        unfolding q_def by (rule dvdE)
      have "j0 * 2 ^ q \<le> m" by (simp add: j0_def)
      also have "m < 2 ^ q * a" using sv size_idx a sm by simp
      finally have "j0 < a" by (simp add: mult.commute)
      then have "(j0 + 1) * 2 ^ q \<le> a * 2 ^ q" by (intro mult_le_mono1) simp
      then show "\<not> classSize c idx < (j0 + 1) * 2 ^ q" using a by (simp add: mult.commute)
    qed
    then have "kSmallSize2Index c ! j0 = idx"
      using len by (simp add: kSmallSize2Index_def q_def)
    then show ?thesis
      using small s1 len
      unfolding j0_def m_def q_def
      by (simp add: lookupSmallSize2Index_def Let_def shr64_def)
  qed
  from idx_N compute direct sv least lookup show ?thesis
    by (intro exI [of _ idx]) (simp add: size_idx)
qed

lemma consistent_example: "consistent example_classes"
proof -
  have top: "classSize example_classes 39 = 32768"
    by (simp add: classSize_def example_classes_def)
  have "classSize example_classes i < 2 ^ 64" if "i < 40" for i
  proof -
    from that have "classSize example_classes i \<le> classSize example_classes 39"
      by (intro classSize_mono) simp
    then show ?thesis by (simp add: top)
  qed
  then have fits: "\<forall>v \<in> set (kSizeIndex2Size example_classes). v < 2 ^ 64"
    by (auto simp: kSizeIndex2Size_def example_classes_def)
  have "kMaxSizeClass example_classes \<in> set (kSizeIndex2Size example_classes)"
    using top
    by (simp add: kSizeIndex2Size_def example_classes_def image_iff) (rule bexI [of _ 39], simp_all)
  with fits show ?thesis by (simp add: consistent_def) (simp add: example_classes_def)
qed

text \<open>Where both apply, the lookup table and the computation give the same index.\<close>

lemma lookup_agrees_with_compute:
  assumes "consistent c" and "1 < s" and "s \<le> kMaxSizeClass c" and "s \<le> kMaxSmallSizeLookup c"
  shows "lookupSmallSize2Index c s = computeSize2Index c s"
  using classify [OF assms(1-3)] assms(4) by auto

text \<open>The functions on the sample constants: the first twelve class sizes, and the
  rounding of 100, 5000, 5120 and 5121 bytes.\<close>

lemma fls64_examples: "fls64 1 = 0" "fls64 99 = 6" "fls64 4999 = 12" "fls64 5119 = 12" "fls64 5120 = 12"
  by (simp_all add: fls64.simps)

lemma example_rounding:
  "computeSize2Index example_classes 100 = Some 6"
  "sizeClass example_classes 100 = Some 112"
  "computeSize2Index example_classes 5000 = Some 28"
  "sizeIndex2Size example_classes 28 = Some 5120"
  "sizeClass example_classes 5000 = Some 5120"
  "sizeClass example_classes 5120 = Some 5120"
  "sizeClass example_classes 5121 = Some 6144"
  by (simp_all add: sizeClass_def computeSize2Index_def sizeIndex2Size_def kSizeIndex2Size_def
      classSize_def shr64_def shl64_def wrap64_def kSmallSizeAlign_def example_classes_def
      fls64_examples Let_def)

lemma example_class_sizes:
  "map (classSize example_classes) [0..<12]
     = [16, 32, 48, 64, 80, 96, 112, 128, 160, 192, 224, 256]"
  by (simp add: classSize_def example_classes_def upt_rec)

text \<open>
  C1. For every size \<open>s\<close> with \<open>1 < s \<le> kMaxSizeClass\<close>, \<^verbatim>\<open>size2Index\<close> returns an index
  and \<^verbatim>\<open>sizeIndex2Size\<close> a size for it, that size is at least \<open>s\<close>, and every class whose
  size is smaller than the one returned is smaller than \<open>s\<close>: the composition rounds \<open>s\<close>
  up to the nearest class size. The index returned is the only one of which this is
  true.
\<close>

theorem size2Index_ceiling:
  assumes "consistent c" and "1 < s" and "s \<le> kMaxSizeClass c"
  shows "\<exists>i v. size2Index c s = Some i \<and> sizeIndex2Size c i = Some v \<and> s \<le> v \<and>
           (\<forall>j w. sizeIndex2Size c j = Some w \<and> w < v \<longrightarrow> w < s) \<and>
           (\<forall>i' v'. sizeIndex2Size c i' = Some v' \<and> s \<le> v' \<and>
                    (\<forall>j w. sizeIndex2Size c j = Some w \<and> w < v' \<longrightarrow> w < s) \<longrightarrow> i' = i)"
proof -
  obtain idx where idx:
    "idx < kNumSizeClasses c"
    "computeSize2Index c s = Some idx"
    "sizeClass c s = Some (classSize c idx)"
    "s \<le> classSize c idx"
    "\<And>j. classSize c j < classSize c idx \<Longrightarrow> classSize c j < s"
    "s \<le> kMaxSmallSizeLookup c \<Longrightarrow> lookupSmallSize2Index c s = Some idx"
    using classify [OF assms] by blast
  have table: "sizeIndex2Size c j = Some w \<longleftrightarrow> j < kNumSizeClasses c \<and> w = classSize c j" for j w
    by (auto simp: sizeIndex2Size_def kSizeIndex2Size_def)
  have "size2Index c s = Some idx"
    using assms idx(2,6) by (simp add: size2Index_def)
  moreover have "sizeIndex2Size c idx = Some (classSize c idx)"
    using idx(1) by (simp add: table)
  moreover have "\<forall>j w. sizeIndex2Size c j = Some w \<and> w < classSize c idx \<longrightarrow> w < s"
    using idx(5) by (auto simp: table)
  moreover have "i' = idx"
    if other: "sizeIndex2Size c i' = Some v'" "s \<le> v'"
       "\<forall>j w. sizeIndex2Size c j = Some w \<and> w < v' \<longrightarrow> w < s" for i' v'
  proof -
    from other(1) have v': "v' = classSize c i'" by (simp add: table)
    have "\<not> classSize c i' < classSize c idx"
      using idx(5) [of i'] other(2) v' by auto
    moreover have "\<not> classSize c idx < classSize c i'"
      using other(3) idx(1,4) v' by (auto simp: table)
    ultimately have eq: "classSize c i' = classSize c idx" by simp
    show ?thesis
    proof (rule ccontr)
      assume "i' \<noteq> idx"
      then consider "i' < idx" | "idx < i'" by linarith
      then show False
        using classSize_strict_mono [of i' idx c] classSize_strict_mono [of idx i' c] eq
        by cases simp_all
    qed
  qed
  ultimately show ?thesis using idx(4) by blast
qed

theorem size2Index_ceiling_witness:
  "consistent example_classes \<and> (1::nat) < 100 \<and> 100 \<le> kMaxSizeClass example_classes \<and>
   (\<exists>i v. size2Index example_classes 100 = Some i \<and>
          sizeIndex2Size example_classes i = Some v \<and> 100 \<le> v \<and>
          (\<forall>j w. sizeIndex2Size example_classes j = Some w \<and> w < v \<longrightarrow> w < 100) \<and>
          (\<forall>i' v'. sizeIndex2Size example_classes i' = Some v' \<and> 100 \<le> v' \<and>
                   (\<forall>j w. sizeIndex2Size example_classes j = Some w \<and> w < v' \<longrightarrow> w < 100)
                   \<longrightarrow> i' = i)) \<and>
   (1::nat) < 5000 \<and> 5000 \<le> kMaxSizeClass example_classes \<and>
   (\<exists>i v. size2Index example_classes 5000 = Some i \<and>
          sizeIndex2Size example_classes i = Some v \<and> 5000 \<le> v \<and>
          (\<forall>j w. sizeIndex2Size example_classes j = Some w \<and> w < v \<longrightarrow> w < 5000) \<and>
          (\<forall>i' v'. sizeIndex2Size example_classes i' = Some v' \<and> 5000 \<le> v' \<and>
                   (\<forall>j w. sizeIndex2Size example_classes j = Some w \<and> w < v' \<longrightarrow> w < 5000)
                   \<longrightarrow> i' = i))"
proof -
  have m1: "100 \<le> kMaxSizeClass example_classes" and m2: "5000 \<le> kMaxSizeClass example_classes"
    by (simp_all add: example_classes_def)
  have s1: "(1::nat) < 100" and s2: "(1::nat) < 5000" by simp_all
  show ?thesis
    by (intro conjI [OF consistent_example] conjI [OF s1] conjI [OF m1] conjI [OF s2] conjI [OF m2]
        conjI [OF size2Index_ceiling [OF consistent_example s1 m1]]
        size2Index_ceiling [OF consistent_example s2 m2])
qed

text \<open>
  C2. For every size \<open>s\<close> with \<open>1 < s \<le> kMaxSizeClass\<close>, \<^verbatim>\<open>sizeClass s\<close> returns a
  value, and it is the value of \<^verbatim>\<open>sizeIndex2Size (size2Index s)\<close>, through the lookup
  table as well as through the computed index.
\<close>

theorem sizeClass_agrees:
  assumes "consistent c" and "1 < s" and "s \<le> kMaxSizeClass c"
  shows "sizeClass c s = Option.bind (size2Index c s) (sizeIndex2Size c) \<and> sizeClass c s \<noteq> None"
proof -
  obtain idx where idx:
    "idx < kNumSizeClasses c"
    "computeSize2Index c s = Some idx"
    "sizeClass c s = Some (classSize c idx)"
    "s \<le> classSize c idx"
    "\<And>j. classSize c j < classSize c idx \<Longrightarrow> classSize c j < s"
    "s \<le> kMaxSmallSizeLookup c \<Longrightarrow> lookupSmallSize2Index c s = Some idx"
    using classify [OF assms] by blast
  have "size2Index c s = Some idx"
    using assms idx(2,6) by (simp add: size2Index_def)
  moreover have "sizeIndex2Size c idx = Some (classSize c idx)"
    using idx(1) by (simp add: sizeIndex2Size_def kSizeIndex2Size_def)
  ultimately show ?thesis using idx(3) by simp
qed

theorem sizeClass_agrees_witness:
  "consistent example_classes \<and> (1::nat) < 100 \<and> 100 \<le> kMaxSizeClass example_classes \<and>
   (sizeClass example_classes 100
      = Option.bind (size2Index example_classes 100) (sizeIndex2Size example_classes) \<and>
    sizeClass example_classes 100 \<noteq> None) \<and>
   sizeClass example_classes 100 = Some 112 \<and>
   (1::nat) < 5000 \<and> 5000 \<le> kMaxSizeClass example_classes \<and>
   (sizeClass example_classes 5000
      = Option.bind (size2Index example_classes 5000) (sizeIndex2Size example_classes) \<and>
    sizeClass example_classes 5000 \<noteq> None) \<and>
   sizeClass example_classes 5000 = Some 5120"
proof -
  have m1: "100 \<le> kMaxSizeClass example_classes" and m2: "5000 \<le> kMaxSizeClass example_classes"
    by (simp_all add: example_classes_def)
  have s1: "(1::nat) < 100" and s2: "(1::nat) < 5000" by simp_all
  show ?thesis
    by (intro conjI [OF consistent_example] conjI [OF s1] conjI [OF m1] conjI [OF s2] conjI [OF m2]
        conjI [OF sizeClass_agrees [OF consistent_example s1 m1]]
        conjI [OF sizeClass_agrees [OF consistent_example s2 m2]]
        conjI [OF example_rounding(2)] example_rounding(5))
qed

section \<open>Free lists: order and the two pops\<close>




text \<open>
  C8. On the same list and memory, \<^verbatim>\<open>likelyPop\<close> and \<^verbatim>\<open>unlikelyPop\<close> return the same
  pointer and the same list: the pointer is the head, and the new head is the link
  stored in the popped block, or the old (null) head when the list was empty.
\<close>

theorem pop_variants_same:
  "likelyPop fl mem = unlikelyPop fl mem \<and>
   fst (likelyPop fl mem) = head fl \<and>
   head (snd (likelyPop fl mem)) = (if head fl = 0 then head fl else mem (head fl))"
  by (simp add: likelyPop_def unlikelyPop_def Let_def)

section \<open>Small allocations and the usage counter\<close>

text \<open>
  What a small allocation that returned has done: the index was in range, the block is
  aligned and not null, the counter has grown by the size of the class, and, when the
  slabs are bypassed, the block is a big block tracked with that size. The collaborators
  are taken as the spec has them: the request for a collection leaves the counter, the
  mode and the free lists alone; the slow path returns a block that is not null, leaves
  the counter and the mode alone, and in bypass mode tracks the block with the size it
  was asked for. In bypass mode nothing is ever pushed, so the free list is empty.
\<close>

lemma mallocSmallIndex_effect:
  assumes alloc: "mallocSmallIndex c ext index mm = Some (p, mm1)"
      and gc: "\<forall>m. mmUsage (m_stats (requestEagerGC ext m)) = mmUsage (m_stats m) \<and>
                   m_bypassSlabAlloc (requestEagerGC ext m) = m_bypassSlabAlloc m \<and>
                   m_freelists (requestEagerGC ext m) = m_freelists m"
      and slow: "\<forall>bytes i m q m'. mallocSmallSizeSlow ext bytes i m = Some (q, m') \<longrightarrow>
                   q \<noteq> 0 \<and> mmUsage (m_stats m') = mmUsage (m_stats m) \<and>
                   m_bypassSlabAlloc m' = m_bypassSlabAlloc m \<and>
                   (m_bypassSlabAlloc m \<longrightarrow> m_bigs m' q = of_nat bytes)"
      and empty: "m_bypassSlabAlloc mm \<longrightarrow> head (m_freelists mm index) = 0"
  shows "index < kNumSmallSizes c \<and> p \<noteq> 0 \<and> p AND kSmallSizeAlignMask c = 0 \<and>
         (\<exists>bytes. sizeIndex2Size c index = Some bytes \<and>
                  mmUsage (m_stats mm1) = mmUsage (m_stats mm) + of_nat bytes \<and>
                  (m_bypassSlabAlloc mm1 \<longrightarrow> m_bigs mm1 p = of_nat bytes))"
proof -
  from alloc have idx: "index < kNumSmallSizes c"
    by (simp add: mallocSmallIndex_def split: if_splits)
  from alloc idx obtain bytes where bytes: "sizeIndex2Size c index = Some bytes"
    by (auto simp: mallocSmallIndex_def Let_def split: option.splits)
  define mm0 where "mm0 = (if debug ext then requestEagerGC ext mm else mm)"
  define grown where
    "grown = mm0\<lparr>m_stats := (m_stats mm0)\<lparr>mmUsage := mmUsage (m_stats mm0) + of_nat bytes\<rparr>\<rparr>"
  define p0 where "p0 = fst (likelyPop (m_freelists grown index) (links grown))"
  define fl where "fl = snd (likelyPop (m_freelists grown index) (links grown))"
  define popped where "popped = grown\<lparr>m_freelists := (m_freelists grown)(index := fl)\<rparr>"
  have u0: "mmUsage (m_stats mm0) = mmUsage (m_stats mm)"
    and b0: "m_bypassSlabAlloc mm0 = m_bypassSlabAlloc mm"
    and f0: "m_freelists mm0 = m_freelists mm"
    using gc by (simp_all add: mm0_def)
  have u2: "mmUsage (m_stats popped) = mmUsage (m_stats mm) + of_nat bytes"
    and b2: "m_bypassSlabAlloc popped = m_bypassSlabAlloc mm"
    by (simp_all add: popped_def grown_def u0 b0)
  have p0: "p0 = head (m_freelists mm index)"
    by (simp add: p0_def likelyPop_def Let_def grown_def f0)
  from alloc idx bytes
  have res: "(if p0 = 0 then mallocSmallSizeSlow ext bytes index popped else Some (p0, popped))
               = Some (p, mm1)"
    and al: "p AND kSmallSizeAlignMask c = 0"
    by (auto simp: mallocSmallIndex_def Let_def split_beta mm0_def grown_def p0_def fl_def
        popped_def split: option.splits if_splits)
  have "p \<noteq> 0 \<and> mmUsage (m_stats mm1) = mmUsage (m_stats popped) \<and>
        (m_bypassSlabAlloc mm1 \<longrightarrow> m_bigs mm1 p = of_nat bytes)"
  proof (cases "p0 = 0")
    case True
    with res have "mallocSmallSizeSlow ext bytes index popped = Some (p, mm1)" by simp
    with slow have "p \<noteq> 0" "mmUsage (m_stats mm1) = mmUsage (m_stats popped)"
      "m_bypassSlabAlloc mm1 = m_bypassSlabAlloc popped"
      "m_bypassSlabAlloc popped \<longrightarrow> m_bigs mm1 p = of_nat bytes"
      by blast+
    then show ?thesis by simp
  next
    case False
    with empty p0 have "\<not> m_bypassSlabAlloc mm" by auto
    with False res b2 show ?thesis by auto
  qed
  with idx al bytes u2 show ?thesis by simp
qed

lemma size2Index_example_24: "size2Index example_classes 24 = Some 1"
proof -
  have "length (takeWhile (\<lambda>i. classSize example_classes i < 32) [0..<40]) = 1"
  proof (rule first_failing_index)
    show "(1::nat) < 40" by simp
    show "classSize example_classes i < 32" if "i < 1" for i
      using that by (simp add: classSize_def example_classes_def)
    show "\<not> classSize example_classes 1 < 32"
      by (simp add: classSize_def example_classes_def)
  qed
  then show ?thesis
    by (simp add: size2Index_def lookupSmallSize2Index_def kSmallSize2Index_def shr64_def
        example_classes_def)
qed

lemmas run = mallocSmallIndex_def freeSmallIndex_def sizeIndex2Size_def kSizeIndex2Size_def
  classSize_def kSmallSizeAlignMask_def kSmallSizeAlign_def likelyPop_def push_def UninitFrom_def
  example_classes_def quiet_def request_def Let_def

lemma quiet_gc:
  "\<forall>m. mmUsage (m_stats (requestEagerGC quiet m)) = mmUsage (m_stats m) \<and>
       m_bypassSlabAlloc (requestEagerGC quiet m) = m_bypassSlabAlloc m \<and>
       m_freelists (requestEagerGC quiet m) = m_freelists m"
  by (simp add: quiet_def)

lemma quiet_slow:
  "\<forall>bytes i m q m'. mallocSmallSizeSlow quiet bytes i m = Some (q, m') \<longrightarrow>
     q \<noteq> 0 \<and> mmUsage (m_stats m') = mmUsage (m_stats m) \<and>
     m_bypassSlabAlloc m' = m_bypassSlabAlloc m \<and>
     (m_bypassSlabAlloc m \<longrightarrow> m_bigs m' q = of_nat bytes)"
  by (auto simp: quiet_def)

lemma quiet_big:
  "\<forall>q m. mmUsage (m_stats (freeBigSize quiet q m)) = mmUsage (m_stats m) - m_bigs m q"
  by (simp add: quiet_def)

text \<open>
  C3. For every small size class, a small allocation that returned a block, followed at
  once by the free of that block at the same class, leaves \<^verbatim>\<open>m_stats.mmUsage\<close> equal
  to its value before the allocation: by index (\<^verbatim>\<open>mallocSmallIndex\<close>,
  \<^verbatim>\<open>freeSmallIndex\<close>) and by size (\<^verbatim>\<open>mallocSmallSize\<close>, \<^verbatim>\<open>freeSmallSize\<close>), with the
  slabs in use and with the slabs bypassed, and the free does not fail. With the slabs
  in use the two functions add and subtract the size of the class themselves. With the
  slabs bypassed \<^verbatim>\<open>freeSmallIndex\<close> subtracts nothing and hands the block to the
  large-object free path. The functions outside this file are taken as the spec has
  them: the request for a collection leaves the counter, the mode and the free lists
  alone; the slow path returns a block that is not null, leaves the counter and the
  mode alone and, with the slabs bypassed, tracks the block as a big block of the size
  asked for; the large-object free path decrements the usage by the size the block was
  charged at allocation. With the slabs bypassed no block is ever pushed, so the free
  lists are empty.
\<close>

theorem small_alloc_free_usage:
  assumes gc: "\<forall>m. mmUsage (m_stats (requestEagerGC ext m)) = mmUsage (m_stats m) \<and>
                   m_bypassSlabAlloc (requestEagerGC ext m) = m_bypassSlabAlloc m \<and>
                   m_freelists (requestEagerGC ext m) = m_freelists m"
      and slow: "\<forall>bytes i m q m'. mallocSmallSizeSlow ext bytes i m = Some (q, m') \<longrightarrow>
                   q \<noteq> 0 \<and> mmUsage (m_stats m') = mmUsage (m_stats m) \<and>
                   m_bypassSlabAlloc m' = m_bypassSlabAlloc m \<and>
                   (m_bypassSlabAlloc m \<longrightarrow> m_bigs m' q = of_nat bytes)"
      and big: "\<forall>q m. mmUsage (m_stats (freeBigSize ext q m)) = mmUsage (m_stats m) - m_bigs m q"
      and empty: "m_bypassSlabAlloc mm \<longrightarrow> (\<forall>i. head (m_freelists mm i) = 0)"
  shows "(mallocSmallIndex c ext index mm = Some (p, mm1) \<longrightarrow>
            (\<exists>mm2. freeSmallIndex c ext p index mm1 = Some mm2 \<and>
                   mmUsage (m_stats mm2) = mmUsage (m_stats mm))) \<and>
         (mallocSmallSize c ext bytes mm = Some (p, mm1) \<longrightarrow>
            (\<exists>mm2. freeSmallSize c ext p bytes mm1 = Some mm2 \<and>
                   mmUsage (m_stats mm2) = mmUsage (m_stats mm)))"
proof (intro conjI impI)
  show by_index: "\<exists>mm2. freeSmallIndex c ext p index mm1 = Some mm2 \<and>
                   mmUsage (m_stats mm2) = mmUsage (m_stats mm)"
    if alloc: "mallocSmallIndex c ext index mm = Some (p, mm1)" for index
  proof -
    from empty have e: "m_bypassSlabAlloc mm \<longrightarrow> head (m_freelists mm index) = 0" by blast
    from mallocSmallIndex_effect [OF alloc gc slow e] obtain n where n:
      "index < kNumSmallSizes c" "p \<noteq> 0" "p AND kSmallSizeAlignMask c = 0"
      "sizeIndex2Size c index = Some n"
      "mmUsage (m_stats mm1) = mmUsage (m_stats mm) + of_nat n"
      "m_bypassSlabAlloc mm1 \<longrightarrow> m_bigs mm1 p = of_nat n"
      by blast
    show ?thesis
    proof (cases "m_bypassSlabAlloc mm1")
      case True
      with n big show ?thesis by (simp add: freeSmallIndex_def)
    next
      case False
      with n show ?thesis
        by (simp add: freeSmallIndex_def push_def UninitFrom_def Let_def)
    qed
  qed
  assume "mallocSmallSize c ext bytes mm = Some (p, mm1)"
  then obtain i where i: "size2Index c bytes = Some i"
    and "mallocSmallIndex c ext i mm = Some (p, mm1)"
    by (auto simp: mallocSmallSize_def split: if_splits option.splits)
  from by_index [OF this(2)] i
  show "\<exists>mm2. freeSmallSize c ext p bytes mm1 = Some mm2 \<and>
              mmUsage (m_stats mm2) = mmUsage (m_stats mm)"
    by (simp add: freeSmallSize_def)
qed

theorem small_alloc_free_usage_witness:
  "(\<exists>p mm1 mm2. mallocSmallIndex example_classes quiet 0 request = Some (p, mm1) \<and>
        \<not> m_bypassSlabAlloc mm1 \<and>
        freeSmallIndex example_classes quiet p 0 mm1 = Some mm2 \<and>
        mmUsage (m_stats mm2) = mmUsage (m_stats request)) \<and>
   (\<exists>p mm1 mm2. mallocSmallSize example_classes quiet 24 request = Some (p, mm1) \<and>
        \<not> m_bypassSlabAlloc mm1 \<and>
        freeSmallSize example_classes quiet p 24 mm1 = Some mm2 \<and>
        mmUsage (m_stats mm2) = mmUsage (m_stats request)) \<and>
   (\<exists>p mm1 mm2.
        mallocSmallIndex example_classes quiet 0 (request\<lparr>m_bypassSlabAlloc := True\<rparr>)
          = Some (p, mm1) \<and>
        m_bypassSlabAlloc mm1 \<and> mmUsage (m_stats mm1) = 916 \<and>
        freeSmallIndex example_classes quiet p 0 mm1 = Some mm2 \<and>
        mmUsage (m_stats mm2) = mmUsage (m_stats (request\<lparr>m_bypassSlabAlloc := True\<rparr>)) \<and>
        mmUsage (m_stats mm2) = 900)"
proof -
  have e: "m_bypassSlabAlloc request \<longrightarrow> (\<forall>i. head (m_freelists request i) = 0)"
    and e': "m_bypassSlabAlloc (request\<lparr>m_bypassSlabAlloc := True\<rparr>) \<longrightarrow>
             (\<forall>i. head (m_freelists (request\<lparr>m_bypassSlabAlloc := True\<rparr>) i) = 0)"
    by (simp_all add: request_def)
  have "\<exists>p mm1. mallocSmallIndex example_classes quiet 0 request = Some (p, mm1) \<and>
          \<not> m_bypassSlabAlloc mm1"
    by (simp add: run)
  then obtain p mm1 where a: "mallocSmallIndex example_classes quiet 0 request = Some (p, mm1)"
    and nb: "\<not> m_bypassSlabAlloc mm1" by blast
  have "\<exists>p mm1. mallocSmallSize example_classes quiet 24 request = Some (p, mm1) \<and>
          \<not> m_bypassSlabAlloc mm1"
    by (simp add: mallocSmallSize_def size2Index_example_24) (simp add: run)
  then obtain p' mm1' where a': "mallocSmallSize example_classes quiet 24 request = Some (p', mm1')"
    and nb': "\<not> m_bypassSlabAlloc mm1'" by blast
  have "\<exists>p mm1. mallocSmallIndex example_classes quiet 0 (request\<lparr>m_bypassSlabAlloc := True\<rparr>)
            = Some (p, mm1) \<and> m_bypassSlabAlloc mm1 \<and> mmUsage (m_stats mm1) = 916"
    by (simp add: run)
  then obtain q mq where
    b: "mallocSmallIndex example_classes quiet 0 (request\<lparr>m_bypassSlabAlloc := True\<rparr>) = Some (q, mq)"
    and byp: "m_bypassSlabAlloc mq" and grown: "mmUsage (m_stats mq) = 916" by blast
  have start: "mmUsage (m_stats (request\<lparr>m_bypassSlabAlloc := True\<rparr>)) = 900"
    by (simp add: request_def)
  from small_alloc_free_usage [OF quiet_gc quiet_slow quiet_big e, of example_classes 0 p mm1] a nb
  have one: "\<exists>p mm1 mm2. mallocSmallIndex example_classes quiet 0 request = Some (p, mm1) \<and>
        \<not> m_bypassSlabAlloc mm1 \<and>
        freeSmallIndex example_classes quiet p 0 mm1 = Some mm2 \<and>
        mmUsage (m_stats mm2) = mmUsage (m_stats request)" by blast
  from small_alloc_free_usage [OF quiet_gc quiet_slow quiet_big e, of example_classes _ p' mm1' 24]
    a' nb'
  have two: "\<exists>p mm1 mm2. mallocSmallSize example_classes quiet 24 request = Some (p, mm1) \<and>
        \<not> m_bypassSlabAlloc mm1 \<and>
        freeSmallSize example_classes quiet p 24 mm1 = Some mm2 \<and>
        mmUsage (m_stats mm2) = mmUsage (m_stats request)" by blast
  from small_alloc_free_usage [OF quiet_gc quiet_slow quiet_big e', of example_classes 0 q mq]
    b byp grown start
  have three: "\<exists>p mm1 mm2.
        mallocSmallIndex example_classes quiet 0 (request\<lparr>m_bypassSlabAlloc := True\<rparr>)
          = Some (p, mm1) \<and>
        m_bypassSlabAlloc mm1 \<and> mmUsage (m_stats mm1) = 916 \<and>
        freeSmallIndex example_classes quiet p 0 mm1 = Some mm2 \<and>
        mmUsage (m_stats mm2) = mmUsage (m_stats (request\<lparr>m_bypassSlabAlloc := True\<rparr>)) \<and>
        mmUsage (m_stats mm2) = 900" by auto
  from one two three show ?thesis by blast
qed




section \<open>The budget check\<close>

text \<open>
  C4, as amended. With the checks disabled \<^verbatim>\<open>preAllocOOM\<close> returns false and leaves
  the manager as it is, whatever the usage. With the checks enabled (and the signed sum
  within \<^verbatim>\<open>int64_t\<close>) it returns true exactly when the usage of the snapshot taken by
  \<^verbatim>\<open>getStatsCopy\<close>, plus the size, is above the limit; it then returns the manager as
  the handler of an exceeded limit leaves it, and otherwise the manager unchanged. The
  decision reads the reconciled copy, not \<^verbatim>\<open>currentUsage()\<close>, and does not write the
  stored stats or the interval flag.
\<close>

theorem preAllocOOM_snapshot:
  "(\<not> m_couldOOM mm \<longrightarrow> preAllocOOM ext size0 mm = Some (False, mm)) \<and>
   (m_couldOOM mm \<and>
    - (2 ^ 63) \<le> sint (usage ext (getStatsCopy ext mm)) + sint size0 \<and>
    sint (usage ext (getStatsCopy ext mm)) + sint size0 < 2 ^ 63 \<longrightarrow>
      preAllocOOM ext size0 mm =
        (if sint (m_usageLimit mm) < sint (usage ext (getStatsCopy ext mm)) + sint size0
         then Some (True, refreshStatsHelperExceeded ext mm)
         else Some (False, mm)))"
  by (simp add: preAllocOOM_def Let_def)

theorem preAllocOOM_snapshot_witness:
  "m_couldOOM request \<and>
   preAllocOOM quiet 50 request = Some (False, request) \<and>
   preAllocOOM quiet 150 request = Some (True, refreshStatsHelperExceeded quiet request) \<and>
   \<not> m_couldOOM (request\<lparr>m_couldOOM := False\<rparr>) \<and>
   preAllocOOM quiet 150 (request\<lparr>m_couldOOM := False\<rparr>) = Some (False, request\<lparr>m_couldOOM := False\<rparr>)"
proof -
  have u: "sint (usage quiet (getStatsCopy quiet request)) = 900"
    by (simp add: getStatsCopy_def quiet_def request_def)
  have on: "m_couldOOM request" and limit: "sint (m_usageLimit request) = 1000"
    by (simp_all add: request_def)
  have off: "\<not> m_couldOOM (request\<lparr>m_couldOOM := False\<rparr>)" by simp
  have r50: "m_couldOOM request \<and>
      - (2 ^ 63) \<le> sint (usage quiet (getStatsCopy quiet request)) + sint (50 :: int64) \<and>
      sint (usage quiet (getStatsCopy quiet request)) + sint (50 :: int64) < 2 ^ 63"
    by (simp add: on u)
  have r150: "m_couldOOM request \<and>
      - (2 ^ 63) \<le> sint (usage quiet (getStatsCopy quiet request)) + sint (150 :: int64) \<and>
      sint (usage quiet (getStatsCopy quiet request)) + sint (150 :: int64) < 2 ^ 63"
    by (simp add: on u)
  from preAllocOOM_snapshot [of request quiet 50, THEN conjunct2, rule_format, OF r50]
  have a: "preAllocOOM quiet 50 request = Some (False, request)" by (simp add: u limit)
  from preAllocOOM_snapshot [of request quiet 150, THEN conjunct2, rule_format, OF r150]
  have b: "preAllocOOM quiet 150 request = Some (True, refreshStatsHelperExceeded quiet request)"
    by (simp add: u limit)
  from preAllocOOM_snapshot [of "request\<lparr>m_couldOOM := False\<rparr>" quiet 150] off
  have c: "preAllocOOM quiet 150 (request\<lparr>m_couldOOM := False\<rparr>)
             = Some (False, request\<lparr>m_couldOOM := False\<rparr>)" by blast
  from on a b off c show ?thesis by blast
qed

text \<open>
  With the collaborators of \<open>reconciling\<close> and 200 bytes of the external allocator
  outstanding: the checks are enabled, \<^verbatim>\<open>currentUsage() + 50\<close> is 950 and the limit is
  1000, and \<^verbatim>\<open>preAllocOOM(50)\<close> returns true, since the snapshot reads 1100.
\<close>

theorem preAllocOOM_not_currentUsage:
  "m_couldOOM request_with_totals \<and>
   sint (currentUsage request_with_totals) + sint (50 :: int64) = 950 \<and>
   sint (m_usageLimit request_with_totals) = 1000 \<and>
   \<not> sint (m_usageLimit request_with_totals)
       < sint (currentUsage request_with_totals) + sint (50 :: int64) \<and>
   sint (usage reconciling (getStatsCopy reconciling request_with_totals)) = 1100 \<and>
   preAllocOOM reconciling 50 request_with_totals
     = Some (True, refreshStatsHelperExceeded reconciling request_with_totals)"
  by (simp add: preAllocOOM_def getStatsCopy_def currentUsage_def reconciling_def quiet_def
      request_with_totals_def request_def MemoryManager.extend_def Let_def)

section \<open>The scope that suppresses the check\<close>

text \<open>
  C5. Two nested scopes, with code before, inside and after the inner one: entering a
  scope disables the checks; on leaving the inner scope they are still disabled
  (provided the code that ran between the two entries did not enable them); on leaving
  the outer scope the flag is what it was before the outer scope was entered, whatever
  ran inside.
\<close>

theorem SuppressOOM_nested:
  assumes b1: "\<forall>m. m_couldOOM (b1 m) = m_couldOOM m"
  shows "let (so1, mm1) = SuppressOOM_ctor mm;
             mm2 = b1 mm1;
             (so2, mm3) = SuppressOOM_ctor mm2;
             mm4 = b2 mm3;
             mm5 = SuppressOOM_dtor so2 mm4;
             mm6 = b3 mm5;
             mm7 = SuppressOOM_dtor so1 mm6
         in \<not> m_couldOOM mm1 \<and> \<not> m_couldOOM mm3 \<and> \<not> m_couldOOM mm5 \<and>
            m_couldOOM mm7 = m_couldOOM mm"
  using b1 by (simp add: SuppressOOM_ctor_def SuppressOOM_dtor_def)

theorem SuppressOOM_nested_witness:
  "(let (so1, mm1) = SuppressOOM_ctor request;
        mm2 = forceOOM quiet mm1;
        (so2, mm3) = SuppressOOM_ctor mm2;
        mm4 = forceOOM quiet mm3;
        mm5 = SuppressOOM_dtor so2 mm4;
        mm6 = forceOOM quiet mm5;
        mm7 = SuppressOOM_dtor so1 mm6
    in \<not> m_couldOOM mm1 \<and> \<not> m_couldOOM mm3 \<and> \<not> m_couldOOM mm5 \<and>
       m_couldOOM mm7 = m_couldOOM request \<and> m_couldOOM request) \<and>
   (let (so1, mm1) = SuppressOOM_ctor (request\<lparr>m_couldOOM := False\<rparr>);
        mm2 = forceOOM quiet mm1;
        (so2, mm3) = SuppressOOM_ctor mm2;
        mm4 = forceOOM quiet mm3;
        mm5 = SuppressOOM_dtor so2 mm4;
        mm6 = forceOOM quiet mm5;
        mm7 = SuppressOOM_dtor so1 mm6
    in \<not> m_couldOOM mm1 \<and> \<not> m_couldOOM mm3 \<and> \<not> m_couldOOM mm5 \<and>
       m_couldOOM mm7 = m_couldOOM (request\<lparr>m_couldOOM := False\<rparr>) \<and> \<not> m_couldOOM mm7)"
proof -
  have keeps: "\<forall>m :: unit MemoryManager. m_couldOOM (forceOOM quiet m) = m_couldOOM m"
    by (simp add: forceOOM_def quiet_def)
  from SuppressOOM_nested [OF keeps, of request "forceOOM quiet" "forceOOM quiet"]
    SuppressOOM_nested [OF keeps, of "request\<lparr>m_couldOOM := False\<rparr>" "forceOOM quiet" "forceOOM quiet"]
  show ?thesis by (simp add: split_beta Let_def) (simp add: request_def)
qed

section \<open>The stats interval\<close>



section \<open>Queries of a thread without a manager\<close>

text \<open>
  C9. \<^verbatim>\<open>sweeping()\<close>, \<^verbatim>\<open>exiting()\<close> and \<^verbatim>\<open>setExiting()\<close> never read through a null
  \<^verbatim>\<open>tl_heap\<close>: none of them faults, whatever the thread's state. When the thread has no
  manager the two queries return false, even with \<^verbatim>\<open>tl_sweeping\<close> set, and
  \<^verbatim>\<open>setExiting()\<close> changes nothing.
\<close>

theorem queries_never_fault:
  "sweeping t \<noteq> None \<and> exiting t \<noteq> None \<and> setExiting t \<noteq> None \<and>
   (tl_heap t = None \<longrightarrow>
      sweeping t = Some False \<and> exiting t = Some False \<and> setExiting t = Some t)"
  by (auto simp: sweeping_def exiting_def setExiting_def split: option.splits)

theorem queries_never_fault_witness:
  "tl_heap \<lparr>tl_heap = None :: unit MemoryManager option, tl_sweeping = True\<rparr> = None \<and>
   sweeping \<lparr>tl_heap = None :: unit MemoryManager option, tl_sweeping = True\<rparr> = Some False \<and>
   exiting \<lparr>tl_heap = None :: unit MemoryManager option, tl_sweeping = True\<rparr> = Some False \<and>
   setExiting \<lparr>tl_heap = None :: unit MemoryManager option, tl_sweeping = True\<rparr>
     = Some \<lparr>tl_heap = None, tl_sweeping = True\<rparr>"
  using queries_never_fault [of "\<lparr>tl_heap = None :: unit MemoryManager option, tl_sweeping = True\<rparr>"]
  by simp

end
